theory Spec2Isabelle
  imports Main "HOL-Library.Char_ord" "HOL-Library.List_Lexorder" "HOL-Library.Sublist"
begin

section \<open>Byte strings and the library functions the query engine calls\<close>

text \<open>
  Go strings and byte slices are sequences of bytes; both are modelled as \<open>string\<close>
  (a \<open>char list\<close>, one \<open>char\<close> per byte). Comparison of strings (\<open>keyStr > opts.Prefix\<close>)
  and the key order of the store are the bytewise lexicographic order, which is the
  order of \<open>char list\<close> given by the imported library theories.
\<close>

text \<open>\<open>strings.HasPrefix(s, prefix)\<close>:
  \<open>len(s) >= len(prefix) && s[:len(prefix)] == prefix\<close>.\<close>

definition HasPrefix :: "string \<Rightarrow> string \<Rightarrow> bool" where
  "HasPrefix s p = (length p \<le> length s \<and> take (length p) s = p)"

text \<open>\<open>strings.Contains(s, substr)\<close>: \<open>substr\<close> occurs at some position of \<open>s\<close>.\<close>

fun Contains :: "string \<Rightarrow> string \<Rightarrow> bool" where
  "Contains [] sub = (sub = [])"
| "Contains (c # cs) sub = (HasPrefix (c # cs) sub \<or> Contains cs sub)"

text \<open>Decimal rendering of a length, as \<open>%d\<close> of \<open>fmt.Sprintf\<close> does for a
  non-negative integer.\<close>

definition digit :: "nat \<Rightarrow> char" where
  "digit d = ''0123456789'' ! d"

function Itoa :: "nat \<Rightarrow> string" where
  "Itoa n = (if n < 10 then [digit n] else Itoa (n div 10) @ [digit (n mod 10)])"
  by pat_completeness auto
termination
  by (relation "measure id") auto

declare Itoa.simps [simp del]

section \<open>Data model of the query engine\<close>

text \<open>
  What the store's iterator reports for one entry: \<open>item.Key()\<close>, the outcome of
  \<open>item.ValueCopy(nil)\<close> (\<open>None\<close> when it returns an error), \<open>item.ValueSize()\<close>
  and \<open>item.ExpiresAt()\<close>.
\<close>

record Item =
  ikey :: string
  ivalue :: "string option"
  isize :: int
  iexpires :: nat

text \<open>The keyspace a read transaction sees: its entries in ascending key order.\<close>

type_synonym Store = "Item list"

definition store_ok :: "Store \<Rightarrow> bool" where
  "store_ok st = sorted_wrt (<) (map ikey st)"

record KeyItem =
  Key :: string
  ValuePreview :: string
  Size :: int
  ExpiresAt :: nat

record ListKeysOptions =
  Prefix :: string
  Mode :: string
  SortDesc :: bool
  Limit :: int
  Offset :: int
  StartKey :: string
  PreviewChars :: int

text \<open>The errors the core produces, one constructor per \<open>fmt.Errorf\<close> site; errors
  of the libraries (JSON, base64, the storage engine) carry their message.\<close>

datatype error =
    DatabaseNotOpen
  | DatabaseAlreadyOpen
  | DirectoryNotExist string
  | OpenFailed string
  | InvalidRegex string
  | UnknownUploadSession string
  | KeyNotFound
  | ValueCopyFailed
  | LibraryError string

text \<open>The client: \<open>db\<close> is \<open>None\<close> while no store is open, and otherwise the keyspace
  as reads see it, that is, the entries of the store that are not expired.\<close>

record DBClient =
  path :: string
  db :: "Store option"

section \<open>The store's iterator\<close>

text \<open>
  The iterator belongs to the storage engine, which is a dependency of the repository.
  It is modelled by its contract: \<open>Seek(key)\<close> moves to \<open>key\<close> if present and
  otherwise to the next key in the direction of iteration (the smallest key greater
  than \<open>key\<close> going forward, the greatest key smaller than \<open>key\<close> going backward);
  \<open>Seek\<close> of the empty key rewinds (to the first key going forward, to the last key
  going backward). The result is the list of entries the iterator will visit, first
  the one it stands on; \<open>it.Valid()\<close> is that list not being empty and \<open>it.Next()\<close>
  is its tail.
\<close>

definition Seek :: "bool \<Rightarrow> string \<Rightarrow> Store \<Rightarrow> Item list" where
  "Seek reverse k st =
     (if k = [] then (if reverse then rev st else st)
      else if reverse then dropWhile (\<lambda>e. k < ikey e) (rev st)
      else dropWhile (\<lambda>e. ikey e < k) st)"

section \<open>Value preview and binary classification\<close>

text \<open>\<open>isBinary\<close>: the loop \<open>for i := 0; i < n; i++\<close> over the first
  \<open>n = min(len(data), 512)\<close> bytes.\<close>

function isBinary_loop :: "string \<Rightarrow> nat \<Rightarrow> nat \<Rightarrow> bool" where
  "isBinary_loop data n i =
     (if i < n then (if data ! i = CHR 0x00 then True else isBinary_loop data n (i + 1))
      else False)"
  by pat_completeness auto
termination
  by (relation "measure (\<lambda>(data, n, i). n - i)") auto

declare isBinary_loop.simps [simp del]

definition isBinary :: "string \<Rightarrow> bool" where
  "isBinary data =
     (let n = length data; n = (if n > 512 then 512 else n) in isBinary_loop data n 0)"

text \<open>The preview built in the body of the loop of \<open>ListKeys\<close>
  (\<open>previewLen\<close>, \<open>preview\<close>, then the override for binary values).\<close>

definition build_preview :: "int \<Rightarrow> string \<Rightarrow> string" where
  "build_preview previewChars valCopy =
     (let previewLen = (if previewChars \<le> 0 then 100 else previewChars);
          preview = (if int (length valCopy) > previewLen
                     then take (nat previewLen) valCopy @ ''...''
                     else valCopy)
      in if isBinary valCopy
         then ''[Binary '' @ Itoa (length valCopy) @ '' bytes]''
         else preview)"

section \<open>ListKeys\<close>

text \<open>The outcome of the filter \<open>switch\<close> for one visited key: the key matches, it
  does not, or the scan returns at once (the early exit of ascending prefix scans).\<close>

datatype verdict = Match | NoMatch | Stop

definition filter_key :: "ListKeysOptions \<Rightarrow> (string \<Rightarrow> bool) option \<Rightarrow> string \<Rightarrow> verdict" where
  "filter_key opts re keyStr =
     (if Mode opts = ''prefix'' then
        (if SortDesc opts then
           (if HasPrefix keyStr (Prefix opts) then Match
            else if HasPrefix keyStr (Prefix opts) then Match else NoMatch)
         else
           (if HasPrefix keyStr (Prefix opts) then Match
            else if length (Prefix opts) > 0 \<and> keyStr > Prefix opts
                    \<and> \<not> HasPrefix keyStr (Prefix opts) then Stop
            else NoMatch))
      else if Mode opts = ''substring'' then
        (if Contains keyStr (Prefix opts) then Match else NoMatch)
      else if Mode opts = ''regex'' then
        (case re of
           Some r \<Rightarrow> if r keyStr then Match else NoMatch
         | None \<Rightarrow> Match)
      else
        (if HasPrefix keyStr (Prefix opts) then Match else NoMatch))"

definition mk_KeyItem :: "ListKeysOptions \<Rightarrow> Item \<Rightarrow> string \<Rightarrow> KeyItem" where
  "mk_KeyItem opts item valCopy =
     \<lparr>Key = ikey item,
      ValuePreview = build_preview (PreviewChars opts) valCopy,
      Size = isize item,
      ExpiresAt = iexpires item\<rparr>"

text \<open>
  The loop \<open>for ; it.Valid(); it.Next()\<close>. Its state is the iterator (the entries not
  yet visited), \<open>skipped\<close>, \<open>count\<close> and \<open>items\<close>; it ends with the rows, \<open>hasMore\<close>
  and the iterator as the loop leaves it.
\<close>

fun scan :: "ListKeysOptions \<Rightarrow> (string \<Rightarrow> bool) option \<Rightarrow> Item list \<Rightarrow> int \<Rightarrow> int
    \<Rightarrow> KeyItem list \<Rightarrow> KeyItem list \<times> bool \<times> Item list" where
  "scan opts re [] skipped count items = (items, False, [])"
| "scan opts re (item # rest) skipped count items =
     (case filter_key opts re (ikey item) of
        Stop \<Rightarrow> (items, False, item # rest)
      | NoMatch \<Rightarrow> scan opts re rest skipped count items
      | Match \<Rightarrow>
          if StartKey opts = [] \<and> skipped < Offset opts
          then scan opts re rest (skipped + 1) count items
          else (case ivalue item of
                  None \<Rightarrow> scan opts re rest skipped count items
                | Some valCopy \<Rightarrow>
                    let items' = items @ [mk_KeyItem opts item valCopy];
                        count' = count + 1
                    in if count' \<ge> Limit opts
                       then (items', rest \<noteq> [], rest)
                       else scan opts re rest skipped count' items'))"

declare scan.simps [simp del]

text \<open>The choice of the seek position (\<open>startKey\<close>).\<close>

definition start_key :: "ListKeysOptions \<Rightarrow> string" where
  "start_key opts =
     (if StartKey opts \<noteq> [] then StartKey opts
      else if Mode opts \<noteq> ''prefix'' then
        (if SortDesc opts then [CHR 0xFF] else [])
      else Prefix opts)"

text \<open>
  The compilation of the pattern before the loop: only in mode \<open>regex\<close> and only for
  a non-empty pattern; \<open>re\<close> stays \<open>nil\<close> (\<open>None\<close>) otherwise.
  \<open>compile\<close> stands for \<open>regexp.Compile\<close> of the standard library: the error message
  when the pattern is rejected, the match predicate otherwise.
\<close>

definition compile_pattern :: "(string \<Rightarrow> string + (string \<Rightarrow> bool)) \<Rightarrow> ListKeysOptions
    \<Rightarrow> error + (string \<Rightarrow> bool) option" where
  "compile_pattern compile opts =
     (if Mode opts = ''regex'' \<and> Prefix opts \<noteq> [] then
        (case compile (Prefix opts) of
           Inl msg \<Rightarrow> Inl (InvalidRegex msg)
         | Inr r \<Rightarrow> Inr (Some r))
      else Inr None)"

text \<open>The body of the read transaction: seek, compile the pattern, run the loop.\<close>

definition view_body :: "(string \<Rightarrow> string + (string \<Rightarrow> bool)) \<Rightarrow> Store \<Rightarrow> ListKeysOptions
    \<Rightarrow> error + (KeyItem list \<times> bool \<times> Item list)" where
  "view_body compile st opts =
     (let it = Seek (SortDesc opts) (start_key opts) st in
      case compile_pattern compile opts of
        Inl err \<Rightarrow> Inl err
      | Inr re \<Rightarrow> Inr (scan opts re it 0 0 []))"

definition ListKeys :: "(string \<Rightarrow> string + (string \<Rightarrow> bool)) \<Rightarrow> DBClient \<Rightarrow> ListKeysOptions
    \<Rightarrow> error + (KeyItem list \<times> bool)" where
  "ListKeys compile c opts =
     (case db c of
        None \<Rightarrow> Inl DatabaseNotOpen
      | Some st \<Rightarrow>
          (case view_body compile st opts of
             Inl err \<Rightarrow> Inl err
           | Inr (items, hasMore, it) \<Rightarrow> Inr (items, hasMore)))"


section \<open>Point operations of the store client\<close>

text \<open>
  What the outside world answers to the core: the decoders of \<open>encoding/json\<close> for the
  envelope and for each parameter struct (the struct decoded, or the error message),
  \<open>encoding/base64\<close>, \<open>regexp.Compile\<close>, \<open>os.Stat\<close> (does the path exist),
  opening the engine at a path, the engine's refusal of a write or a delete
  (\<open>None\<close> when it accepts), its refusal to close, the largest capacity the runtime
  grants to \<open>make\<close>, and the clock (\<open>time.Now()\<close> in nanoseconds since the epoch).
  \<open>json_Request\<close> gives the envelope as the decoder leaves it together with the
  decoder's error, since \<open>handleLine\<close> reads \<open>req.ID\<close> after a failed decode.
\<close>

record Request =
  req_ID :: string
  req_Type :: string
  req_Params :: string

record OpenDBParams =
  open_Path :: string
  open_ReadOnly :: bool

record ListKeysParams =
  list_Prefix :: string
  list_Mode :: string
  list_Sort :: string
  list_Limit :: int
  list_Offset :: int

record GetValueParams =
  get_Key :: string

record PutValueParams =
  put_Key :: string
  put_ValueLength :: int
  put_TTL :: int

record PutChunkParams =
  chunk_ID :: string
  chunk_ChunkIndex :: int
  chunk_Data :: string

record PutCommitParams =
  commit_ID :: string
  commit_Key :: string
  commit_TTL :: int

record DeleteKeyParams =
  delete_Key :: string

record Env =
  json_Request :: "string \<Rightarrow> Request \<times> string option"
  json_OpenDBParams :: "string \<Rightarrow> string + OpenDBParams"
  json_ListKeysParams :: "string \<Rightarrow> string + ListKeysParams"
  json_GetValueParams :: "string \<Rightarrow> string + GetValueParams"
  json_PutValueParams :: "string \<Rightarrow> string + PutValueParams"
  json_PutChunkParams :: "string \<Rightarrow> string + PutChunkParams"
  json_PutCommitParams :: "string \<Rightarrow> string + PutCommitParams"
  json_DeleteKeyParams :: "string \<Rightarrow> string + DeleteKeyParams"
  base64_Decode :: "string \<Rightarrow> string + string"
  base64_Encode :: "string \<Rightarrow> string"
  regexp_Compile :: "string \<Rightarrow> string + (string \<Rightarrow> bool)"
  os_Exists :: "string \<Rightarrow> bool"
  badger_Open :: "string \<Rightarrow> string + Store"
  badger_Close :: "Store \<Rightarrow> string option"
  badger_SetEntry :: "string \<Rightarrow> string \<Rightarrow> string option"
  badger_Delete :: "string \<Rightarrow> string option"
  runtime_maxAlloc :: int
  time_Now :: int

text \<open>\<open>err.Error()\<close>.\<close>

fun Error_msg :: "error \<Rightarrow> string" where
  "Error_msg DatabaseNotOpen = ''database not open''"
| "Error_msg DatabaseAlreadyOpen = ''database is already open''"
| "Error_msg (DirectoryNotExist p) = ''directory does not exist: '' @ p"
| "Error_msg (OpenFailed m) = ''failed to open badger db: '' @ m"
| "Error_msg (InvalidRegex m) = ''invalid regex: '' @ m"
| "Error_msg (UnknownUploadSession sid) = ''unknown upload session: '' @ sid"
| "Error_msg KeyNotFound = ''Key not found''"
| "Error_msg ValueCopyFailed = ''value copy failed''"
| "Error_msg (LibraryError m) = m"

text \<open>
  Machine arithmetic of the write path. \<open>int\<close> and \<open>time.Duration\<close> are 64-bit signed
  integers: \<open>int64\<close> is the value a result wraps to, \<open>uint64\<close> the conversion to an
  unsigned 64-bit integer, \<open>Unix\<close> the whole seconds of a time in nanoseconds.
\<close>

definition int64 :: "int \<Rightarrow> int" where
  "int64 x = (x + 9223372036854775808) mod 18446744073709551616 - 9223372036854775808"

definition uint64 :: "int \<Rightarrow> nat" where
  "uint64 x = nat (x mod 18446744073709551616)"

definition Unix :: "int \<Rightarrow> int" where
  "Unix t = t div 1000000000"

text \<open>
  \<open>e.WithTTL(time.Duration(ttl) * time.Second)\<close>: the product wraps in 64 bits, and the
  engine sets \<open>ExpiresAt = uint64(time.Now().Add(dur).Unix())\<close>.
\<close>

definition WithTTL :: "Env \<Rightarrow> int \<Rightarrow> nat" where
  "WithTTL env ttl = uint64 (Unix (time_Now env + int64 (int64 ttl * 1000000000)))"

text \<open>The engine's test of expiry on every read: \<open>ExpiresAt\<close> is set and not after
  the current second.\<close>

definition expired :: "Env \<Rightarrow> nat \<Rightarrow> bool" where
  "expired env expiresAt = (expiresAt \<noteq> 0 \<and> expiresAt \<le> uint64 (Unix (time_Now env)))"

text \<open>The engine's point operations on the ordered keyspace: lookup, insertion or
  replacement of an entry at its place in the key order, removal.\<close>

fun store_get :: "string \<Rightarrow> Store \<Rightarrow> Item option" where
  "store_get k [] = None"
| "store_get k (e # es) = (if ikey e = k then Some e else store_get k es)"

fun store_set :: "Item \<Rightarrow> Store \<Rightarrow> Store" where
  "store_set x [] = [x]"
| "store_set x (e # es) =
     (if ikey x = ikey e then x # es
      else if ikey x < ikey e then x # e # es
      else e # store_set x es)"

fun store_delete :: "string \<Rightarrow> Store \<Rightarrow> Store" where
  "store_delete k [] = []"
| "store_delete k (e # es) = (if ikey e = k then es else e # store_delete k es)"

definition Open :: "Env \<Rightarrow> DBClient \<Rightarrow> string \<Rightarrow> error option \<times> DBClient" where
  "Open env c p =
     (if db c \<noteq> None then (Some DatabaseAlreadyOpen, c)
      else if \<not> os_Exists env p then (Some (DirectoryNotExist p), c)
      else (case badger_Open env p of
              Inl msg \<Rightarrow> (Some (OpenFailed msg), c)
            | Inr st \<Rightarrow> (None, c\<lparr>path := p, db := Some st\<rparr>)))"

definition Close :: "Env \<Rightarrow> DBClient \<Rightarrow> error option \<times> DBClient" where
  "Close env c =
     (case db c of
        None \<Rightarrow> (None, c)
      | Some st \<Rightarrow> (map_option LibraryError (badger_Close env st), c\<lparr>db := None, path := []\<rparr>))"

definition GetValue :: "DBClient \<Rightarrow> string \<Rightarrow> error + string" where
  "GetValue c key =
     (case db c of
        None \<Rightarrow> Inl DatabaseNotOpen
      | Some st \<Rightarrow>
          (case store_get key st of
             None \<Rightarrow> Inl KeyNotFound
           | Some item \<Rightarrow>
               (case ivalue item of
                  None \<Rightarrow> Inl ValueCopyFailed
                | Some val \<Rightarrow> Inr val)))"

text \<open>
  The effect of \<open>txn.SetEntry\<close> on the keyspace that reads see. The engine records the
  entry as the newest version of its key, and every read (\<open>txn.Get\<close>, the iterator)
  passes over a key whose newest version is expired. The clock of the model does not
  advance, so an entry that is expired when it is written leaves no entry under its key
  for any read; any other entry takes its place in the key order.
\<close>

definition SetEntry :: "Env \<Rightarrow> Item \<Rightarrow> Store \<Rightarrow> Store" where
  "SetEntry env e st =
     (if expired env (iexpires e) then store_delete (ikey e) st else store_set e st)"

definition SetValue :: "Env \<Rightarrow> DBClient \<Rightarrow> string \<Rightarrow> string \<Rightarrow> int \<Rightarrow> error option \<times> DBClient" where
  "SetValue env c key val ttl =
     (case db c of
        None \<Rightarrow> (Some DatabaseNotOpen, c)
      | Some st \<Rightarrow>
          (case badger_SetEntry env key val of
             Some msg \<Rightarrow> (Some (LibraryError msg), c)
           | None \<Rightarrow>
               (None, c\<lparr>db := Some (SetEntry env
                   \<lparr>ikey = key, ivalue = Some val, isize = int (length val),
                    iexpires = (if ttl > 0 then WithTTL env ttl else 0)\<rparr> st)\<rparr>)))"

definition DeleteKey :: "Env \<Rightarrow> DBClient \<Rightarrow> string \<Rightarrow> error option \<times> DBClient" where
  "DeleteKey env c key =
     (case db c of
        None \<Rightarrow> (Some DatabaseNotOpen, c)
      | Some st \<Rightarrow>
          (case badger_Delete env key of
             Some msg \<Rightarrow> (Some (LibraryError msg), c)
           | None \<Rightarrow> (None, c\<lparr>db := Some (store_delete key st)\<rparr>)))"

section \<open>The request handler\<close>

record Error =
  Code :: int
  Message :: string

datatype Result =
    Null
  | ListKeysResult "KeyItem list" bool
  | GetValueResult string

record Response =
  resp_ID :: string
  resp_Type :: string
  resp_Result :: Result
  resp_Error :: "Error option"

text \<open>How a call ends: it returns, or it panics and takes the process down.\<close>

datatype 'a outcome = Panic string | Return 'a

text \<open>The handler: the store client, the lines written to the output (each response
  as the value that is serialised) and the table of upload sessions.\<close>

record Handler =
  dbClient :: DBClient
  out :: "Response list"
  chunkBuffer :: "string \<rightharpoonup> string"

text \<open>\<open>writeJSON\<close> appends one line to the output.\<close>

definition writeJSON :: "Handler \<Rightarrow> Response \<Rightarrow> Handler" where
  "writeJSON h v = h\<lparr>out := out h @ [v]\<rparr>"

definition sendResponse :: "Handler \<Rightarrow> string \<Rightarrow> string \<Rightarrow> Result \<Rightarrow> Handler" where
  "sendResponse h rid typeStr result =
     writeJSON h \<lparr>resp_ID = rid, resp_Type = typeStr, resp_Result = result, resp_Error = None\<rparr>"

definition sendError :: "Handler \<Rightarrow> string \<Rightarrow> int \<Rightarrow> string \<Rightarrow> Handler" where
  "sendError h rid code msg =
     writeJSON h \<lparr>resp_ID = rid, resp_Type = ''error'', resp_Result = Null,
                  resp_Error = Some \<lparr>Code = code, Message = msg\<rparr>\<rparr>"

definition handleOpenDB :: "Env \<Rightarrow> Handler \<Rightarrow> string \<Rightarrow> (error + Result) \<times> Handler" where
  "handleOpenDB env h params =
     (case json_OpenDBParams env params of
        Inl msg \<Rightarrow> (Inl (LibraryError msg), h)
      | Inr p \<Rightarrow>
          (case Open env (dbClient h) (open_Path p) of
             (Some err, c) \<Rightarrow> (Inl err, h\<lparr>dbClient := c\<rparr>)
           | (None, c) \<Rightarrow> (Inr Null, h\<lparr>dbClient := c\<rparr>)))"

definition handleListKeys :: "Env \<Rightarrow> Handler \<Rightarrow> string \<Rightarrow> (error + Result) \<times> Handler" where
  "handleListKeys env h params =
     (case json_ListKeysParams env params of
        Inl msg \<Rightarrow> (Inl (LibraryError msg), h)
      | Inr p \<Rightarrow>
          (let opts = \<lparr>Prefix = list_Prefix p, Mode = list_Mode p,
                       SortDesc = (list_Sort p = ''desc''), Limit = list_Limit p,
                       Offset = list_Offset p, StartKey = [], PreviewChars = 0\<rparr>
           in case ListKeys (regexp_Compile env) (dbClient h) opts of
                Inl err \<Rightarrow> (Inl err, h)
              | Inr (keys, hasMore) \<Rightarrow> (Inr (ListKeysResult keys hasMore), h)))"

definition handleGetValue :: "Env \<Rightarrow> Handler \<Rightarrow> string \<Rightarrow> (error + Result) \<times> Handler" where
  "handleGetValue env h params =
     (case json_GetValueParams env params of
        Inl msg \<Rightarrow> (Inl (LibraryError msg), h)
      | Inr p \<Rightarrow>
          (case GetValue (dbClient h) (get_Key p) of
             Inl err \<Rightarrow> (Inl err, h)
           | Inr val \<Rightarrow> (Inr (GetValueResult (base64_Encode env val)), h)))"

text \<open>
  \<open>make([]byte, 0, p.ValueLength)\<close> panics when the capacity is negative or beyond what
  the runtime grants. The panic is not recovered: the process ends before the session
  table is written and before any response.
\<close>

definition handlePutValue :: "Env \<Rightarrow> Handler \<Rightarrow> string \<Rightarrow> string
    \<Rightarrow> ((error + Result) \<times> Handler) outcome" where
  "handlePutValue env h reqID params =
     (case json_PutValueParams env params of
        Inl msg \<Rightarrow> Return (Inl (LibraryError msg), h)
      | Inr p \<Rightarrow>
          if put_ValueLength p < 0 \<or> put_ValueLength p > runtime_maxAlloc env
          then Panic ''makeslice: cap out of range''
          else Return (Inr Null, h\<lparr>chunkBuffer := (chunkBuffer h)(reqID \<mapsto> [])\<rparr>))"

definition handlePutChunk :: "Env \<Rightarrow> Handler \<Rightarrow> string \<Rightarrow> (error + Result) \<times> Handler" where
  "handlePutChunk env h params =
     (case json_PutChunkParams env params of
        Inl msg \<Rightarrow> (Inl (LibraryError msg), h)
      | Inr p \<Rightarrow>
          (case base64_Decode env (chunk_Data p) of
             Inl msg \<Rightarrow> (Inl (LibraryError msg), h)
           | Inr data \<Rightarrow>
               (case chunkBuffer h (chunk_ID p) of
                  None \<Rightarrow> (Inl (UnknownUploadSession (chunk_ID p)), h)
                | Some buf \<Rightarrow>
                    (Inr Null, h\<lparr>chunkBuffer := (chunkBuffer h)(chunk_ID p \<mapsto> buf @ data)\<rparr>))))"

definition handlePutCommit :: "Env \<Rightarrow> Handler \<Rightarrow> string \<Rightarrow> (error + Result) \<times> Handler" where
  "handlePutCommit env h params =
     (case json_PutCommitParams env params of
        Inl msg \<Rightarrow> (Inl (LibraryError msg), h)
      | Inr p \<Rightarrow>
          (let h' = h\<lparr>chunkBuffer := (chunkBuffer h)(commit_ID p := None)\<rparr>
           in case chunkBuffer h (commit_ID p) of
                None \<Rightarrow> (Inl (UnknownUploadSession (commit_ID p)), h')
              | Some buf \<Rightarrow>
                  (case SetValue env (dbClient h') (commit_Key p) buf (commit_TTL p) of
                     (Some err, c) \<Rightarrow> (Inl err, h'\<lparr>dbClient := c\<rparr>)
                   | (None, c) \<Rightarrow> (Inr Null, h'\<lparr>dbClient := c\<rparr>))))"

definition handleDeleteKey :: "Env \<Rightarrow> Handler \<Rightarrow> string \<Rightarrow> (error + Result) \<times> Handler" where
  "handleDeleteKey env h params =
     (case json_DeleteKeyParams env params of
        Inl msg \<Rightarrow> (Inl (LibraryError msg), h)
      | Inr p \<Rightarrow>
          (case DeleteKey env (dbClient h) (delete_Key p) of
             (Some err, c) \<Rightarrow> (Inl err, h\<lparr>dbClient := c\<rparr>)
           | (None, c) \<Rightarrow> (Inr Null, h\<lparr>dbClient := c\<rparr>)))"

definition handleCloseDB :: "Env \<Rightarrow> Handler \<Rightarrow> (error + Result) \<times> Handler" where
  "handleCloseDB env h =
     (case Close env (dbClient h) of
        (Some err, c) \<Rightarrow> (Inl err, h\<lparr>dbClient := c\<rparr>)
      | (None, c) \<Rightarrow> (Inr Null, h\<lparr>dbClient := c\<rparr>))"

text \<open>The tail of \<open>handleLine\<close>: \<open>if err != nil\<close> send an error with code 1000,
  otherwise the response of type \<open>req.Type + "_resp"\<close>.\<close>

definition reply :: "Request \<Rightarrow> (error + Result) \<times> Handler \<Rightarrow> Handler" where
  "reply req r =
     (case r of
        (Inl err, h) \<Rightarrow> sendError h (req_ID req) 1000 (Error_msg err)
      | (Inr result, h) \<Rightarrow> sendResponse h (req_ID req) (req_Type req @ ''_resp'') result)"

text \<open>The request types (\<open>TypeOpenDB\<close> to \<open>TypeCloseDB\<close>).\<close>

definition request_types :: "string list" where
  "request_types = [''open_db'', ''list_keys'', ''get_value'', ''put_value'', ''put_chunk'',
                    ''put_commit'', ''delete_key'', ''close_db'']"

text \<open>The \<open>switch\<close> on \<open>req.Type\<close>: how the handler's call ends, or \<open>None\<close> in the
  \<open>default\<close> case.\<close>

definition dispatch :: "Env \<Rightarrow> Handler \<Rightarrow> Request
    \<Rightarrow> ((error + Result) \<times> Handler) outcome option" where
  "dispatch env h req =
     (if req_Type req = ''open_db'' then Some (Return (handleOpenDB env h (req_Params req)))
      else if req_Type req = ''list_keys'' then
        Some (Return (handleListKeys env h (req_Params req)))
      else if req_Type req = ''get_value'' then
        Some (Return (handleGetValue env h (req_Params req)))
      else if req_Type req = ''put_value'' then
        Some (handlePutValue env h (req_ID req) (req_Params req))
      else if req_Type req = ''put_chunk'' then
        Some (Return (handlePutChunk env h (req_Params req)))
      else if req_Type req = ''put_commit'' then
        Some (Return (handlePutCommit env h (req_Params req)))
      else if req_Type req = ''delete_key'' then
        Some (Return (handleDeleteKey env h (req_Params req)))
      else if req_Type req = ''close_db'' then Some (Return (handleCloseDB env h))
      else None)"

definition handleLine :: "Env \<Rightarrow> Handler \<Rightarrow> string \<Rightarrow> Handler outcome" where
  "handleLine env h line =
     (case json_Request env line of
        (req, Some err) \<Rightarrow> Return (sendError h (req_ID req) 1003 ''Invalid request format'')
      | (req, None) \<Rightarrow>
          (case dispatch env h req of
             None \<Rightarrow> Return (sendError h (req_ID req) 1000 ''Unknown request type'')
           | Some (Panic msg) \<Rightarrow> Panic msg
           | Some (Return r) \<Rightarrow> Return (reply req r)))"


section \<open>The page a query returns, in the words of the specification\<close>

text \<open>
  The entries the loop looks at before an early exit, those among them that match,
  and the rows built from a list of entries (an entry whose value cannot be read
  gives no row). \<open>left_to_skip\<close> is the number of matches the loop will still skip
  when it has skipped \<open>skipped\<close> of them.
\<close>

definition visited :: "ListKeysOptions \<Rightarrow> (string \<Rightarrow> bool) option \<Rightarrow> Item list \<Rightarrow> Item list" where
  "visited opts re its = takeWhile (\<lambda>e. filter_key opts re (ikey e) \<noteq> Stop) its"

definition matched :: "ListKeysOptions \<Rightarrow> (string \<Rightarrow> bool) option \<Rightarrow> Item list \<Rightarrow> Item list" where
  "matched opts re its = filter (\<lambda>e. filter_key opts re (ikey e) = Match) (visited opts re its)"

definition rows :: "ListKeysOptions \<Rightarrow> Item list \<Rightarrow> KeyItem list" where
  "rows opts its =
     concat (map (\<lambda>e. case ivalue e of None \<Rightarrow> [] | Some v \<Rightarrow> [mk_KeyItem opts e v]) its)"

definition left_to_skip :: "ListKeysOptions \<Rightarrow> int \<Rightarrow> nat" where
  "left_to_skip opts skipped = (if StartKey opts = [] then nat (Offset opts - skipped) else 0)"

section \<open>Upload sessions as sequences of calls\<close>

text \<open>
  A run of \<open>put_chunk\<close> calls in the order they arrive; the bytes a call carries once
  its parameters and its payload are decoded; and the calls that decode and name the
  session \<open>sid\<close>.
\<close>

fun put_chunks :: "Env \<Rightarrow> Handler \<Rightarrow> string list \<Rightarrow> Handler" where
  "put_chunks env h [] = h"
| "put_chunks env h (params # later) = put_chunks env (snd (handlePutChunk env h params)) later"

definition chunk_payload :: "Env \<Rightarrow> string \<Rightarrow> string" where
  "chunk_payload env params =
     (case json_PutChunkParams env params of
        Inl msg \<Rightarrow> []
      | Inr p \<Rightarrow> (case base64_Decode env (chunk_Data p) of Inl msg \<Rightarrow> [] | Inr data \<Rightarrow> data))"

definition chunk_for :: "Env \<Rightarrow> string \<Rightarrow> string \<Rightarrow> bool" where
  "chunk_for env sid params =
     (case json_PutChunkParams env params of
        Inl msg \<Rightarrow> False
      | Inr p \<Rightarrow> chunk_ID p = sid
          \<and> (case base64_Decode env (chunk_Data p) of Inl msg \<Rightarrow> False | Inr data \<Rightarrow> True))"

section \<open>Example inputs\<close>

text \<open>
  A store entry with a readable value and no expiry, an open client over a keyspace,
  a prefix query, and an environment whose decoders know a handful of messages
  (its pattern compiler rejects \<open>(\<close> and reads every other pattern literally; its
  clock stands in September 2026).
\<close>

definition entry :: "string \<Rightarrow> string \<Rightarrow> Item" where
  "entry k v = \<lparr>ikey = k, ivalue = Some v, isize = int (length v), iexpires = 0\<rparr>"

definition client :: "Store \<Rightarrow> DBClient" where
  "client st = \<lparr>path = ''/data'', db = Some st\<rparr>"

definition query :: "string \<Rightarrow> string \<Rightarrow> bool \<Rightarrow> int \<Rightarrow> ListKeysOptions" where
  "query mode pat desc lim =
     \<lparr>Prefix = pat, Mode = mode, SortDesc = desc, Limit = lim, Offset = 0, StartKey = [],
      PreviewChars = 0\<rparr>"

definition row :: "string \<Rightarrow> string \<Rightarrow> KeyItem" where
  "row k v = \<lparr>Key = k, ValuePreview = v, Size = int (length v), ExpiresAt = 0\<rparr>"

definition env0 :: Env where
  "env0 =
     \<lparr>json_Request = (\<lambda>line.
         if line = ''L1'' then
           (\<lparr>req_ID = ''1'', req_Type = ''rename_key'', req_Params = []\<rparr>, None)
         else if line = ''L2'' then
           (\<lparr>req_ID = ''2'', req_Type = ''put_commit'', req_Params = ''pc''\<rparr>, None)
         else (\<lparr>req_ID = [], req_Type = [], req_Params = []\<rparr>,
               Some ''unexpected end of JSON input'')),
      json_OpenDBParams = (\<lambda>s. Inl ''unexpected end of JSON input''),
      json_ListKeysParams = (\<lambda>s. Inl ''unexpected end of JSON input''),
      json_GetValueParams = (\<lambda>s. Inl ''unexpected end of JSON input''),
      json_PutValueParams = (\<lambda>s.
         if s = ''pv'' then Inr \<lparr>put_Key = ''k'', put_ValueLength = 5, put_TTL = 0\<rparr>
         else if s = ''pv-'' then Inr \<lparr>put_Key = ''k'', put_ValueLength = - 1, put_TTL = 0\<rparr>
         else Inl ''unexpected end of JSON input''),
      json_PutChunkParams = (\<lambda>s.
         if s = ''c1'' then
           Inr \<lparr>chunk_ID = ''s'', chunk_ChunkIndex = 1, chunk_Data = ''aGVs''\<rparr>
         else if s = ''c2'' then
           Inr \<lparr>chunk_ID = ''s'', chunk_ChunkIndex = 0, chunk_Data = ''bG8=''\<rparr>
         else Inl ''unexpected end of JSON input''),
      json_PutCommitParams = (\<lambda>s.
         if s = ''pc'' then Inr \<lparr>commit_ID = ''s'', commit_Key = ''k'', commit_TTL = 0\<rparr>
         else if s = ''pc+'' then
           Inr \<lparr>commit_ID = ''s'', commit_Key = ''k'', commit_TTL = 18000000000\<rparr>
         else Inl ''unexpected end of JSON input''),
      json_DeleteKeyParams = (\<lambda>s. Inl ''unexpected end of JSON input''),
      base64_Decode = (\<lambda>s.
         if s = ''aGVs'' then Inr ''hel'' else if s = ''bG8='' then Inr ''lo''
         else Inl ''illegal base64 data''),
      base64_Encode = (\<lambda>s. s),
      regexp_Compile = (\<lambda>p.
         if p = ''('' then Inl ''missing closing )'' else Inr (\<lambda>k. Contains k p)),
      os_Exists = (\<lambda>p. True),
      badger_Open = (\<lambda>p. Inr []),
      badger_Close = (\<lambda>st. None),
      badger_SetEntry = (\<lambda>k v. if k = [] then Some ''Key cannot be empty'' else None),
      badger_Delete = (\<lambda>k. if k = [] then Some ''Key cannot be empty'' else None),
      runtime_maxAlloc = 281474976710656,
      time_Now = 1790000000000000000\<rparr>"

definition h0 :: Handler where
  "h0 = \<lparr>dbClient = client [], out = [], chunkBuffer = Map.empty\<rparr>"

section \<open>Properties of the classifier and the preview\<close>

lemma isBinary_loop_iff: "n \<le> length data \<Longrightarrow> isBinary_loop data n i \<longleftrightarrow> (\<exists>j. i \<le> j \<and> j < n \<and> data ! j = CHR 0x00)"
proof (induction data n i rule: isBinary_loop.induct)
  case (1 data n i)
  show ?case
  proof (cases "i < n")
    case True
    note lt = this
    show ?thesis
    proof (cases "data ! i = CHR 0x00")
      case True
      with lt show ?thesis by (subst isBinary_loop.simps) auto
    next
      case False
      have "isBinary_loop data n i = isBinary_loop data n (i + 1)"
        using lt False by (subst isBinary_loop.simps) simp
      also have "\<dots> \<longleftrightarrow> (\<exists>j. i + 1 \<le> j \<and> j < n \<and> data ! j = CHR 0x00)"
        using "1.IH"[OF lt False] "1.prems" by simp
      also have "\<dots> \<longleftrightarrow> (\<exists>j. i \<le> j \<and> j < n \<and> data ! j = CHR 0x00)"
      proof
        assume "\<exists>j. i + 1 \<le> j \<and> j < n \<and> data ! j = CHR 0x00"
        then obtain j where "i + 1 \<le> j" "j < n" "data ! j = CHR 0x00" by blast
        then have "i \<le> j \<and> j < n \<and> data ! j = CHR 0x00" by simp
        then show "\<exists>j. i \<le> j \<and> j < n \<and> data ! j = CHR 0x00" by blast
      next
        assume "\<exists>j. i \<le> j \<and> j < n \<and> data ! j = CHR 0x00"
        then obtain j where j: "i \<le> j" "j < n" "data ! j = CHR 0x00" by blast
        with False have "j \<noteq> i" by auto
        with j have "i + 1 \<le> j \<and> j < n \<and> data ! j = CHR 0x00" by simp
        then show "\<exists>j. i + 1 \<le> j \<and> j < n \<and> data ! j = CHR 0x00" by blast
      qed
      finally show ?thesis .
    qed
  next
    case False
    then show ?thesis by (subst isBinary_loop.simps) auto
  qed
qed

lemma isBinary_iff: "isBinary data \<longleftrightarrow> CHR 0x00 \<in> set (take 512 data)"
proof -
  have "isBinary data \<longleftrightarrow> (\<exists>j. 0 \<le> j \<and> j < min (length data) 512 \<and> data ! j = CHR 0x00)"
    unfolding isBinary_def Let_def by (subst isBinary_loop_iff) (auto simp: min_def)
  also have "\<dots> \<longleftrightarrow> CHR 0x00 \<in> set (take 512 data)"
    by (auto simp: in_set_conv_nth min_def) 
  finally show ?thesis .
qed

text \<open>
  Claim C6. A value with a NUL byte among its first 512 bytes is previewed as
  \<open>[Binary n bytes]\<close>, \<open>n\<close> its full length; any other value is previewed verbatim
  when it is no longer than the effective preview length, and as its first bytes up to
  that length followed by \<open>...\<close> when it is longer; a requested length that is not
  positive stands for 100. (The source slices bytes, which are the characters of this
  model.)
\<close>

theorem preview_cases:
  "build_preview p v =
     (if CHR 0x00 \<in> set (take 512 v) then ''[Binary '' @ Itoa (length v) @ '' bytes]''
      else if int (length v) \<le> (if p \<le> 0 then 100 else p) then v
      else take (nat (if p \<le> 0 then 100 else p)) v @ ''...'')"
  by (simp add: build_preview_def isBinary_iff Let_def)

theorem preview_cases_witness:
  "build_preview 3 ''hello'' = ''hel...'' \<and> build_preview 0 ''hello'' = ''hello''
   \<and> build_preview 5 [CHR ''a'', CHR 0x00, CHR ''b''] = ''[Binary 3 bytes]''"
  using preview_cases [of 3 "''hello''"] preview_cases [of 0 "''hello''"]
    preview_cases [of 5 "[CHR ''a'', CHR 0x00, CHR ''b'']"]
  by (simp add: Itoa.simps digit_def)


section \<open>Properties of the scan\<close>

lemma matched_Cons:
  "matched opts re (e # its) =
     (case filter_key opts re (ikey e) of
        Stop \<Rightarrow> [] | NoMatch \<Rightarrow> matched opts re its | Match \<Rightarrow> e # matched opts re its)"
  by (simp add: matched_def visited_def split: verdict.splits)

lemma rows_Cons:
  "rows opts (e # its) =
     (case ivalue e of None \<Rightarrow> rows opts its | Some v \<Rightarrow> mk_KeyItem opts e v # rows opts its)"
  by (simp add: rows_def split: option.splits)

lemma rows_keys: "r \<in> set (rows opts its) \<Longrightarrow> \<exists>e\<in>set its. Key r = ikey e"
  by (auto simp: rows_def mk_KeyItem_def split: option.splits)


lemma rows_Nil: "rows opts [] = []"
  by (simp add: rows_def)

lemma matched_Nil: "matched opts re [] = []"
  by (simp add: matched_def visited_def)

lemma scan_Stop:
  "filter_key opts re (ikey e) = Stop \<Longrightarrow>
   scan opts re (e # its) skipped count items = (items, False, e # its)"
  by (simp add: scan.simps)

lemma scan_NoMatch:
  "filter_key opts re (ikey e) = NoMatch \<Longrightarrow>
   scan opts re (e # its) skipped count items = scan opts re its skipped count items"
  by (simp add: scan.simps)

lemma scan_skip:
  "filter_key opts re (ikey e) = Match \<Longrightarrow> StartKey opts = [] \<and> skipped < Offset opts \<Longrightarrow>
   scan opts re (e # its) skipped count items = scan opts re its (skipped + 1) count items"
  by (simp add: scan.simps)

lemma scan_unreadable:
  "filter_key opts re (ikey e) = Match \<Longrightarrow> \<not> (StartKey opts = [] \<and> skipped < Offset opts) \<Longrightarrow>
   ivalue e = None \<Longrightarrow>
   scan opts re (e # its) skipped count items = scan opts re its skipped count items"
  by (auto simp: scan.simps)

lemma scan_last:
  "filter_key opts re (ikey e) = Match \<Longrightarrow> \<not> (StartKey opts = [] \<and> skipped < Offset opts) \<Longrightarrow>
   ivalue e = Some v \<Longrightarrow> count + 1 \<ge> Limit opts \<Longrightarrow>
   scan opts re (e # its) skipped count items = (items @ [mk_KeyItem opts e v], its \<noteq> [], its)"
  by (auto simp: scan.simps Let_def)

lemma scan_collect:
  "filter_key opts re (ikey e) = Match \<Longrightarrow> \<not> (StartKey opts = [] \<and> skipped < Offset opts) \<Longrightarrow>
   ivalue e = Some v \<Longrightarrow> \<not> count + 1 \<ge> Limit opts \<Longrightarrow>
   scan opts re (e # its) skipped count items
     = scan opts re its skipped (count + 1) (items @ [mk_KeyItem opts e v])"
  by (auto simp: scan.simps Let_def)

lemma scan_items:
  "fst (scan opts re its skipped count items)
     = items @ take (nat (max 1 (Limit opts - count)))
                 (rows opts (drop (left_to_skip opts skipped) (matched opts re its)))"
proof (induction its arbitrary: skipped count items)
  case Nil
  show ?case by (simp add: scan.simps matched_Nil rows_Nil)
next
  case (Cons e its)
  show ?case
  proof (cases "filter_key opts re (ikey e)")
    case Stop
    then show ?thesis by (simp add: scan_Stop matched_Cons rows_Nil)
  next
    case NoMatch
    then show ?thesis using Cons.IH by (simp add: scan_NoMatch matched_Cons)
  next
    case Match
    show ?thesis
    proof (cases "StartKey opts = [] \<and> skipped < Offset opts")
      case True
      then have "left_to_skip opts skipped = Suc (left_to_skip opts (skipped + 1))"
        by (simp add: left_to_skip_def nat_diff_distrib Suc_nat_eq_nat_zadd1 algebra_simps)
      then show ?thesis using Match Cons.IH by (simp add: scan_skip [OF Match True] matched_Cons)
    next
      case False
      then have z: "left_to_skip opts skipped = 0"
        by (auto simp: left_to_skip_def)
      show ?thesis
      proof (cases "ivalue e")
        case None
        then show ?thesis using Match z Cons.IH [of skipped count items]
          by (simp add: scan_unreadable [OF Match False None] matched_Cons rows_Cons)
      next
        case (Some v)
        let ?row = "mk_KeyItem opts e v"
        have m: "rows opts (drop (left_to_skip opts skipped) (matched opts re (e # its)))
                   = ?row # rows opts (matched opts re its)"
          using Match z Some by (simp add: matched_Cons rows_Cons)
        show ?thesis
        proof (cases "count + 1 \<ge> Limit opts")
          case True
          then have k: "nat (max 1 (Limit opts - count)) = Suc 0" by (auto simp: max_def)
          show ?thesis
            by (simp only: scan_last [OF Match False Some True] m k fst_conv take_Suc_Cons take_0)
        next
          case lt: False
          then have k: "nat (max 1 (Limit opts - count)) = Suc (nat (max 1 (Limit opts - (count + 1))))"
            by (auto simp: max_def)
          have "fst (scan opts re (e # its) skipped count items)
                  = fst (scan opts re its skipped (count + 1) (items @ [?row]))"
            by (simp only: scan_collect [OF Match False Some lt])
          also have "\<dots> = (items @ [?row]) @ take (nat (max 1 (Limit opts - (count + 1))))
                               (rows opts (drop (left_to_skip opts skipped) (matched opts re its)))"
            by (rule Cons.IH)
          also have "\<dots> = items @ take (nat (max 1 (Limit opts - count)))
                               (?row # rows opts (matched opts re its))"
            by (simp only: k z take_Suc_Cons drop_0 append_assoc append_Cons append_Nil)
          finally show ?thesis by (simp only: m)
        qed
      qed
    qed
  qed
qed

lemma scan_position:
  "scan opts re its skipped count items = (res, hm, rest) \<Longrightarrow>
   \<exists>pre. its = pre @ rest
       \<and> res = items @ rows opts (drop (left_to_skip opts skipped) (matched opts re pre))"
proof (induction its arbitrary: skipped count items)
  case Nil
  then show ?case by (simp add: scan.simps matched_Nil rows_Nil)
next
  case (Cons e its)
  show ?case
  proof (cases "filter_key opts re (ikey e)")
    case Stop
    with Cons.prems have "rest = e # its" "res = items" by (simp_all add: scan_Stop)
    then have "e # its = [] @ rest \<and> res = items @ rows opts (drop (left_to_skip opts skipped) (matched opts re []))"
      by (simp add: matched_Nil rows_Nil)
    then show ?thesis by blast
  next
    case NoMatch
    with Cons.prems have "scan opts re its skipped count items = (res, hm, rest)"
      by (simp add: scan_NoMatch)
    from Cons.IH [OF this] obtain pre where
      "its = pre @ rest" "res = items @ rows opts (drop (left_to_skip opts skipped) (matched opts re pre))"
      by blast
    then have "e # its = (e # pre) @ rest
        \<and> res = items @ rows opts (drop (left_to_skip opts skipped) (matched opts re (e # pre)))"
      using NoMatch by (simp add: matched_Cons)
    then show ?thesis by blast
  next
    case Match
    show ?thesis
    proof (cases "StartKey opts = [] \<and> skipped < Offset opts")
      case True
      then have s: "left_to_skip opts skipped = Suc (left_to_skip opts (skipped + 1))"
        by (simp add: left_to_skip_def nat_diff_distrib Suc_nat_eq_nat_zadd1 algebra_simps)
      from Cons.prems have "scan opts re its (skipped + 1) count items = (res, hm, rest)"
        by (simp add: scan_skip [OF Match True])
      from Cons.IH [OF this] obtain pre where
        "its = pre @ rest" "res = items @ rows opts (drop (left_to_skip opts (skipped + 1)) (matched opts re pre))"
        by blast
      then have "e # its = (e # pre) @ rest
        \<and> res = items @ rows opts (drop (left_to_skip opts skipped) (matched opts re (e # pre)))"
        using Match s by (simp add: matched_Cons)
      then show ?thesis by blast
    next
      case False
      then have z: "left_to_skip opts skipped = 0"
        by (auto simp: left_to_skip_def)
      show ?thesis
      proof (cases "ivalue e")
        case None
        with Cons.prems have "scan opts re its skipped count items = (res, hm, rest)"
          by (simp add: scan_unreadable [OF Match False])
        from Cons.IH [OF this] obtain pre where
          "its = pre @ rest" "res = items @ rows opts (drop (left_to_skip opts skipped) (matched opts re pre))"
          by blast
        then have "e # its = (e # pre) @ rest
          \<and> res = items @ rows opts (drop (left_to_skip opts skipped) (matched opts re (e # pre)))"
          using Match z None by (simp add: matched_Cons rows_Cons)
        then show ?thesis by blast
      next
        case (Some v)
        show ?thesis
        proof (cases "count + 1 \<ge> Limit opts")
          case True
          with Cons.prems have "rest = its" "res = items @ [mk_KeyItem opts e v]"
            by (auto simp: scan_last [OF Match False Some])
          then have "e # its = [e] @ rest
            \<and> res = items @ rows opts (drop (left_to_skip opts skipped) (matched opts re [e]))"
            using Match z Some by (simp add: matched_Cons matched_Nil rows_Cons rows_Nil)
          then show ?thesis by blast
        next
          case lt: False
          with Cons.prems
          have "scan opts re its skipped (count + 1) (items @ [mk_KeyItem opts e v]) = (res, hm, rest)"
            by (simp add: scan_collect [OF Match False Some])
          from Cons.IH [OF this] obtain pre where
            "its = pre @ rest"
            "res = (items @ [mk_KeyItem opts e v]) @ rows opts (drop (left_to_skip opts skipped) (matched opts re pre))"
            by blast
          then have "e # its = (e # pre) @ rest
            \<and> res = items @ rows opts (drop (left_to_skip opts skipped) (matched opts re (e # pre)))"
            using Match z Some by (simp add: matched_Cons rows_Cons)
          then show ?thesis by blast
        qed
      qed
    qed
  qed
qed


lemma left_to_skip_0:
  "left_to_skip opts 0 = (if StartKey opts = [] then nat (Offset opts) else 0)"
  by (simp add: left_to_skip_def)

lemmas eval_defs = ListKeys_def view_body_def compile_pattern_def Seek_def start_key_def
  filter_key_def HasPrefix_def mk_KeyItem_def build_preview_def isBinary_def
  isBinary_loop.simps scan.simps client_def query_def entry_def row_def

subsection \<open>The early exit of ascending prefix scans\<close>

lemma HasPrefix_append: "HasPrefix s p \<longleftrightarrow> (\<exists>t. s = p @ t)"
proof
  assume "HasPrefix s p"
  then have "s = p @ drop (length p) s"
    by (metis HasPrefix_def append_take_drop_id)
  then show "\<exists>t. s = p @ t" ..
next
  assume "\<exists>t. s = p @ t"
  then show "HasPrefix s p" by (auto simp: HasPrefix_def)
qed

lemma HasPrefix_Cons: "HasPrefix (c # cs) (p # ps) \<longleftrightarrow> c = p \<and> HasPrefix cs ps"
  by (auto simp: HasPrefix_def)

lemma HasPrefix_Nil: "HasPrefix s []"
  by (simp add: HasPrefix_def)

lemma HasPrefix_ge: "HasPrefix s p \<Longrightarrow> p \<le> s"
proof (induction p arbitrary: s)
  case Nil
  then show ?case by simp
next
  case (Cons a p)
  then obtain cs where "s = a # cs" "HasPrefix cs p"
    by (cases s) (auto simp: HasPrefix_def)
  with Cons.IH show ?case by simp
qed

lemma between_prefix:
  "p < k1 \<Longrightarrow> k1 < k2 \<Longrightarrow> HasPrefix k2 p \<Longrightarrow> HasPrefix k1 p"
proof (induction p arbitrary: k1 k2)
  case Nil
  show ?case by (rule HasPrefix_Nil)
next
  case (Cons a p)
  from Cons.prems(3) obtain t where k2: "k2 = a # t" "HasPrefix t p"
    by (cases k2) (auto simp: HasPrefix_Cons HasPrefix_def)
  from Cons.prems(1) obtain c cs where k1: "k1 = c # cs"
    by (cases k1) auto
  from Cons.prems(1) k1 have 1: "a < c \<or> a = c \<and> p < cs" by simp
  from Cons.prems(2) k1 k2 have 2: "c < a \<or> c = a \<and> cs < t" by simp
  from 1 2 have "c = a" "p < cs" "cs < t" by auto
  with Cons.IH [of cs t] k2 have "HasPrefix cs p" by simp
  with \<open>c = a\<close> k1 show ?case by (simp add: HasPrefix_Cons)
qed

text \<open>After a key that triggers the early exit, no greater key matches.\<close>

lemma Stop_then_no_Match:
  assumes "filter_key opts re k1 = Stop" and "k1 < k2"
  shows "filter_key opts re k2 \<noteq> Match"
proof -
  from assms(1) have m: "Mode opts = ''prefix''" "\<not> SortDesc opts" "Prefix opts < k1"
      "\<not> HasPrefix k1 (Prefix opts)"
    by (auto simp: filter_key_def split: if_splits option.splits)
  then have "\<not> HasPrefix k2 (Prefix opts)"
    using between_prefix [of "Prefix opts" k1 k2] assms(2) by blast
  with m show ?thesis by (simp add: filter_key_def)
qed

lemma Stop_only_ascending:
  "filter_key opts re k = Stop \<Longrightarrow> \<not> SortDesc opts"
  by (auto simp: filter_key_def split: if_splits option.splits)

lemma matched_sorted:
  "sorted_wrt (<) (map ikey its) \<Longrightarrow>
   matched opts re its = filter (\<lambda>e. filter_key opts re (ikey e) = Match) its"
proof (induction its)
  case Nil
  show ?case by (simp add: matched_Nil)
next
  case (Cons e its)
  then have IH: "matched opts re its = filter (\<lambda>e. filter_key opts re (ikey e) = Match) its"
    and gt: "\<forall>x\<in>set its. ikey e < ikey x"
    by simp_all
  show ?case
  proof (cases "filter_key opts re (ikey e)")
    case Stop
    have "filter (\<lambda>e. filter_key opts re (ikey e) = Match) its = []"
      using gt Stop_then_no_Match [OF Stop] by (simp add: filter_empty_conv)
    with Stop show ?thesis by (simp add: matched_Cons)
  qed (simp_all add: matched_Cons IH)
qed

lemma matched_descending:
  "SortDesc opts \<Longrightarrow>
   matched opts re its = filter (\<lambda>e. filter_key opts re (ikey e) = Match) its"
proof (induction its)
  case Nil
  show ?case by (simp add: matched_Nil)
next
  case (Cons e its)
  then show ?case using Stop_only_ascending [of opts re "ikey e"]
    by (cases "filter_key opts re (ikey e)") (simp_all add: matched_Cons)
qed

lemma sorted_Seek_forward:
  "store_ok st \<Longrightarrow> sorted_wrt (<) (map ikey (Seek False k st))"
proof -
  assume "store_ok st"
  then have s: "sorted_wrt (<) (map ikey st)" by (simp add: store_ok_def)
  have "sorted_wrt (<) (map ikey (dropWhile P st))" for P
    using s by (simp add: dropWhile_eq_drop drop_map [symmetric] sorted_wrt_drop)
  then show ?thesis using s by (simp add: Seek_def)
qed

lemma matched_Seek:
  assumes "store_ok st"
  shows "matched opts re (Seek (SortDesc opts) k st)
           = filter (\<lambda>e. filter_key opts re (ikey e) = Match) (Seek (SortDesc opts) k st)"
proof (cases "SortDesc opts")
  case True
  then show ?thesis by (rule matched_descending)
next
  case False
  then show ?thesis using sorted_Seek_forward [OF assms, of k] by (simp add: matched_sorted)
qed

lemma matched_Seek_prefix:
  assumes "store_ok st" and "Seek (SortDesc opts) k st = pre @ rest"
  shows "matched opts re pre = filter (\<lambda>e. filter_key opts re (ikey e) = Match) pre"
proof (cases "SortDesc opts")
  case True
  then show ?thesis by (rule matched_descending)
next
  case False
  then have "sorted_wrt (<) (map ikey (pre @ rest))"
    using sorted_Seek_forward [OF assms(1), of k] assms(2) by simp
  then have "sorted_wrt (<) (map ikey pre)" by (simp add: sorted_wrt_append)
  then show ?thesis by (rule matched_sorted)
qed

text \<open>Ascending prefix queries see every key that carries the prefix.\<close>

lemma ascending_prefix_complete:
  assumes "Mode opts = ''prefix''" and "\<not> SortDesc opts" and "StartKey opts = []"
  shows "filter (\<lambda>e. filter_key opts re (ikey e) = Match) (Seek (SortDesc opts) (start_key opts) st)
           = filter (\<lambda>e. HasPrefix (ikey e) (Prefix opts)) st"
proof -
  have v: "filter_key opts re k = Match \<longleftrightarrow> HasPrefix k (Prefix opts)" for k
    using assms by (simp add: filter_key_def)
  have "filter (\<lambda>e. HasPrefix (ikey e) (Prefix opts)) (dropWhile (\<lambda>e. ikey e < Prefix opts) st)
          = filter (\<lambda>e. HasPrefix (ikey e) (Prefix opts)) st"
  proof (induction st)
    case Nil
    show ?case by simp
  next
    case (Cons e st)
    then show ?case using HasPrefix_ge [of "ikey e" "Prefix opts"] by auto
  qed
  then show ?thesis using assms by (simp add: v Seek_def start_key_def)
qed

subsection \<open>The lookahead\<close>






subsection \<open>Offset, limit and resume key\<close>

lemma ListKeys_page:
  assumes "db c = Some st" and "compile_pattern compile opts = Inr re"
  shows "\<exists>hasMore. ListKeys compile c opts
          = Inr (take (nat (max 1 (Limit opts)))
                   (rows opts (drop (if StartKey opts = [] then nat (Offset opts) else 0)
                      (matched opts re (Seek (SortDesc opts) (start_key opts) st)))), hasMore)"
proof -
  let ?it = "Seek (SortDesc opts) (start_key opts) st"
  obtain items hm rest where run: "scan opts re ?it 0 0 [] = (items, hm, rest)"
    by (cases "scan opts re ?it 0 0 []") auto
  have "items = fst (scan opts re ?it 0 0 [])" using run by simp
  also have "\<dots> = [] @ take (nat (max 1 (Limit opts - 0)))
                        (rows opts (drop (left_to_skip opts 0) (matched opts re ?it)))"
    by (rule scan_items)
  finally have items: "items = take (nat (max 1 (Limit opts)))
      (rows opts (drop (if StartKey opts = [] then nat (Offset opts) else 0) (matched opts re ?it)))"
    by (simp add: left_to_skip_0)
  have "ListKeys compile c opts = Inr (items, hm)"
    using assms run by (simp add: ListKeys_def view_body_def)
  then show ?thesis using items by blast
qed

lemma ListKeys_page_sorted:
  assumes "store_ok st" and "db c = Some st" and "compile_pattern compile opts = Inr re"
  shows "\<exists>hasMore. ListKeys compile c opts
          = Inr (take (nat (max 1 (Limit opts)))
                   (rows opts (drop (if StartKey opts = [] then nat (Offset opts) else 0)
                      (filter (\<lambda>e. filter_key opts re (ikey e) = Match)
                         (Seek (SortDesc opts) (start_key opts) st)))), hasMore)"
  using ListKeys_page [OF assms(2,3)] matched_Seek [OF assms(1), of opts re "start_key opts"]
  by simp

text \<open>
  Claim C8. With a positive limit the page has at most \<open>limit\<close> rows: it is the first
  \<open>limit\<close> rows of the matching entries in iteration order from the seek position,
  after dropping the first \<open>offset\<close> matching entries when no \<open>startKey\<close> is given and
  none when one is given, in which case the seek position is \<open>startKey\<close>. Entries that
  do not match are filtered out before the offset and the limit are applied, so they
  count toward neither.
\<close>

theorem limit_offset_window:
  assumes "0 < Limit opts" and "store_ok st" and "db c = Some st"
    and "compile_pattern compile opts = Inr re"
  shows "\<exists>items hasMore. ListKeys compile c opts = Inr (items, hasMore)
           \<and> int (length items) \<le> Limit opts
           \<and> items = take (nat (Limit opts))
                 (rows opts (drop (if StartKey opts = [] then nat (Offset opts) else 0)
                    (filter (\<lambda>e. filter_key opts re (ikey e) = Match)
                       (Seek (SortDesc opts) (if StartKey opts = [] then start_key opts
                                               else StartKey opts) st))))"
proof -
  have sk: "(if StartKey opts = [] then start_key opts else StartKey opts) = start_key opts"
    by (simp add: start_key_def)
  from ListKeys_page_sorted [OF assms(2,3,4)] obtain hm where
    "ListKeys compile c opts
       = Inr (take (nat (max 1 (Limit opts)))
                (rows opts (drop (if StartKey opts = [] then nat (Offset opts) else 0)
                   (filter (\<lambda>e. filter_key opts re (ikey e) = Match)
                      (Seek (SortDesc opts) (start_key opts) st)))), hm)"
    by blast
  moreover have "max 1 (Limit opts) = Limit opts" using assms(1) by simp
  ultimately show ?thesis using assms(1) by (auto simp: sk)
qed

theorem limit_offset_window_witness:
  "ListKeys (regexp_Compile env0)
      (client [entry ''a1'' ''1'', entry ''a2'' ''2'', entry ''a3'' ''3'', entry ''b'' ''4''])
      ((query ''prefix'' ''a'' False 1)\<lparr>Offset := 1\<rparr>) = Inr ([row ''a2'' ''2''], True)
   \<and> (\<exists>items hasMore.
        ListKeys (regexp_Compile env0)
          (client [entry ''a1'' ''1'', entry ''a2'' ''2'', entry ''a3'' ''3'', entry ''b'' ''4''])
          ((query ''prefix'' ''a'' False 1)\<lparr>Offset := 1\<rparr>) = Inr (items, hasMore)
        \<and> int (length items) \<le> 1)"
  using limit_offset_window [of "(query ''prefix'' ''a'' False 1)\<lparr>Offset := 1\<rparr>"
      "[entry ''a1'' ''1'', entry ''a2'' ''2'', entry ''a3'' ''3'', entry ''b'' ''4'']"
      "client [entry ''a1'' ''1'', entry ''a2'' ''2'', entry ''a3'' ''3'', entry ''b'' ''4'']"
      "regexp_Compile env0" None]
  by (simp add: eval_defs store_ok_def rows_def)

text \<open>
  Claim C10. With a limit that is not positive the page is the first row, if any, of
  the matching entries after the offset: exactly one row when there is one to return.
\<close>

theorem nonpositive_limit_single_row:
  assumes "Limit opts \<le> 0" and "store_ok st" and "db c = Some st"
    and "compile_pattern compile opts = Inr re"
  shows "\<exists>items hasMore. ListKeys compile c opts = Inr (items, hasMore)
           \<and> items = take 1
                 (rows opts (drop (if StartKey opts = [] then nat (Offset opts) else 0)
                    (filter (\<lambda>e. filter_key opts re (ikey e) = Match)
                       (Seek (SortDesc opts) (start_key opts) st))))
           \<and> (rows opts (drop (if StartKey opts = [] then nat (Offset opts) else 0)
                    (filter (\<lambda>e. filter_key opts re (ikey e) = Match)
                       (Seek (SortDesc opts) (start_key opts) st))) \<noteq> []
                \<longrightarrow> length items = 1)"
proof -
  let ?rows = "rows opts (drop (if StartKey opts = [] then nat (Offset opts) else 0)
                    (filter (\<lambda>e. filter_key opts re (ikey e) = Match)
                       (Seek (SortDesc opts) (start_key opts) st)))"
  from ListKeys_page_sorted [OF assms(2,3,4)] obtain hm where
    "ListKeys compile c opts = Inr (take (nat (max 1 (Limit opts))) ?rows, hm)"
    by blast
  moreover have "nat (max 1 (Limit opts)) = 1" using assms(1) by simp
  ultimately show ?thesis by (cases ?rows) auto
qed

theorem nonpositive_limit_single_row_witness:
  "ListKeys (regexp_Compile env0) (client [entry ''a1'' ''1'', entry ''a2'' ''2'', entry ''a3'' ''3''])
      (query ''prefix'' ''a'' False 0) = Inr ([row ''a1'' ''1''], True)
   \<and> (\<exists>items hasMore.
        ListKeys (regexp_Compile env0) (client [entry ''a1'' ''1'', entry ''a2'' ''2'', entry ''a3'' ''3''])
          (query ''prefix'' ''a'' False 0) = Inr (items, hasMore)
        \<and> length items = 1)"
  using nonpositive_limit_single_row [of "query ''prefix'' ''a'' False 0"
      "[entry ''a1'' ''1'', entry ''a2'' ''2'', entry ''a3'' ''3'']"
      "client [entry ''a1'' ''1'', entry ''a2'' ''2'', entry ''a3'' ''3'']" "regexp_Compile env0" None]
  by (simp add: eval_defs store_ok_def rows_def)

subsection \<open>Regular expressions\<close>

text \<open>
  Claim C7. In mode \<open>regex\<close> on an open store, a non-empty pattern that does not compile
  makes the query fail with the invalid-pattern error, whatever the store holds, and no
  rows are returned; with the empty pattern nothing is compiled, the loop runs and the
  filter's verdict on every key is a match.
\<close>

theorem regex_query:
  assumes "Mode opts = ''regex''" and "db c = Some st"
  shows "(Prefix opts \<noteq> [] \<and> compile (Prefix opts) = Inl msg
            \<longrightarrow> ListKeys compile c opts = Inl (InvalidRegex msg))
       \<and> (Prefix opts = []
            \<longrightarrow> compile_pattern compile opts = Inr None
              \<and> (\<forall>k. filter_key opts None k = Match)
              \<and> view_body compile st opts
                  = Inr (scan opts None (Seek (SortDesc opts) (start_key opts) st) 0 0 []))"
  using assms by (simp add: ListKeys_def view_body_def compile_pattern_def filter_key_def)

theorem regex_query_witness:
  "ListKeys (regexp_Compile env0) (client [entry ''a'' ''1'']) (query ''regex'' ''('' False 10)
       = Inl (InvalidRegex ''missing closing )'')
   \<and> (\<forall>k. filter_key (query ''regex'' [] False 10) None k = Match)
   \<and> ListKeys (regexp_Compile env0) (client [entry ''a'' ''1'', entry ''b'' ''2''])
        (query ''regex'' [] False 10) = Inr ([row ''a'' ''1'', row ''b'' ''2''], False)"
  using regex_query [of "query ''regex'' ''('' False 10" "client [entry ''a'' ''1'']" "[entry ''a'' ''1'']"
        "regexp_Compile env0" "''missing closing )''"]
    regex_query [of "query ''regex'' [] False 10" "client [entry ''a'' ''1'', entry ''b'' ''2'']"
        "[entry ''a'' ''1'', entry ''b'' ''2'']" "regexp_Compile env0"]
  by (simp add: eval_defs env0_def)

subsection \<open>Prefix queries\<close>

text \<open>Every row of a prefix query carries the prefix, in both directions.\<close>

lemma matched_Match: "e \<in> set (matched opts re its) \<Longrightarrow> filter_key opts re (ikey e) = Match"
  by (simp add: matched_def)

lemma prefix_query_sound:
  assumes "Mode opts = ''prefix''" and "ListKeys compile c opts = Inr (items, hasMore)"
    and "r \<in> set items"
  shows "HasPrefix (Key r) (Prefix opts)"
proof -
  from assms(2) obtain st where st: "db c = Some st"
    by (auto simp: ListKeys_def split: option.splits)
  have re: "compile_pattern compile opts = Inr None"
    using assms(1) by (simp add: compile_pattern_def)
  from ListKeys_page [OF st re] assms(2)
  have "items = take (nat (max 1 (Limit opts)))
      (rows opts (drop (if StartKey opts = [] then nat (Offset opts) else 0)
         (matched opts None (Seek (SortDesc opts) (start_key opts) st))))"
    by auto
  with assms(3) have "r \<in> set (rows opts (drop (if StartKey opts = [] then nat (Offset opts) else 0)
         (matched opts None (Seek (SortDesc opts) (start_key opts) st))))"
    by (auto dest: in_set_takeD)
  then obtain e where e: "e \<in> set (matched opts None (Seek (SortDesc opts) (start_key opts) st))"
      and k: "Key r = ikey e"
    by (auto dest!: rows_keys in_set_dropD)
  from e have "filter_key opts None (ikey e) = Match" by (rule matched_Match)
  then show ?thesis using assms(1) k by (auto simp: filter_key_def split: if_splits)
qed

text \<open>An ascending prefix query without a resume key pages through all the keys of
  the store that carry the prefix.\<close>

lemma ascending_prefix_page:
  assumes "Mode opts = ''prefix''" and "\<not> SortDesc opts" and "StartKey opts = []"
    and "store_ok st" and "db c = Some st"
  shows "\<exists>hasMore. ListKeys compile c opts
          = Inr (take (nat (max 1 (Limit opts)))
                   (rows opts (drop (nat (Offset opts))
                      (filter (\<lambda>e. HasPrefix (ikey e) (Prefix opts)) st))), hasMore)"
proof -
  have re: "compile_pattern compile opts = Inr None"
    using assms(1) by (simp add: compile_pattern_def)
  show ?thesis
    using ListKeys_page_sorted [OF assms(4,5) re]
      ascending_prefix_complete [OF assms(1,2,3), of None st] assms(3)
    by simp
qed

subsection \<open>Descending scans\<close>

text \<open>
  Claim C2 fails on the code. With the keys \<open>a\<close> and \<open>ab\<close>, the prefix \<open>a\<close>, offset 0
  and limit 10, the ascending query returns \<open>a\<close>, \<open>ab\<close> and the descending query
  returns \<open>a\<close> alone: the reverse iterator is sought to the prefix itself and starts at
  the greatest key not above it, below the other keys that carry the prefix.
\<close>

theorem descending_not_reverse:
  "ListKeys (regexp_Compile env0) (client [entry ''a'' ''1'', entry ''ab'' ''2''])
       (query ''prefix'' ''a'' False 10) = Inr ([row ''a'' ''1'', row ''ab'' ''2''], False)
   \<and> ListKeys (regexp_Compile env0) (client [entry ''a'' ''1'', entry ''ab'' ''2''])
       (query ''prefix'' ''a'' True 10) = Inr ([row ''a'' ''1''], False)"
  by (simp add: eval_defs)

text \<open>
  Claim C3 fails on the code for descending queries. With the keys \<open>user:1\<close> and
  \<open>user:2\<close>, the prefix \<open>user:\<close>, offset 0 and limit 10, both keys carry the prefix
  and the descending query returns no row; the ascending query returns both.
\<close>

theorem descending_prefix_omits_keys:
  "store_ok [entry ''user:1'' ''x'', entry ''user:2'' ''y'']
   \<and> HasPrefix ''user:1'' ''user:'' \<and> HasPrefix ''user:2'' ''user:''
   \<and> ListKeys (regexp_Compile env0) (client [entry ''user:1'' ''x'', entry ''user:2'' ''y''])
       (query ''prefix'' ''user:'' True 10) = Inr ([], False)
   \<and> ListKeys (regexp_Compile env0) (client [entry ''user:1'' ''x'', entry ''user:2'' ''y''])
       (query ''prefix'' ''user:'' False 10) = Inr ([row ''user:1'' ''x'', row ''user:2'' ''y''], False)"
  by (simp add: eval_defs store_ok_def)

section \<open>Properties of the write path\<close>

lemma int64_id:
  "- 9223372036854775808 \<le> x \<Longrightarrow> x < 9223372036854775808 \<Longrightarrow> int64 x = x"
  by (simp add: int64_def)

text \<open>A time to live of at most 9223372036 seconds is a duration that fits in 64 bits,
  and the entry written with it is not expired on arrival.\<close>

lemma WithTTL_in_range:
  assumes "0 < ttl" and "ttl \<le> 9223372036"
    and "0 \<le> time_Now env" and "time_Now env < 9223372036854775808"
  shows "WithTTL env ttl = nat (Unix (time_Now env) + ttl)"
proof -
  have 1: "int64 ttl = ttl" using assms(1,2) by (intro int64_id) simp_all
  have 2: "int64 (ttl * 1000000000) = ttl * 1000000000"
    using assms(1,2) by (intro int64_id) simp_all
  have 3: "Unix (time_Now env + ttl * 1000000000) = Unix (time_Now env) + ttl"
    by (simp add: Unix_def)
  have "0 \<le> Unix (time_Now env)" "Unix (time_Now env) < 9223372037"
    using assms(3,4) by (simp_all add: Unix_def)
  then have 4: "(Unix (time_Now env) + ttl) mod 18446744073709551616 = Unix (time_Now env) + ttl"
    using assms(1,2) by simp
  show ?thesis by (simp add: WithTTL_def 1 2 3 uint64_def 4)
qed

lemma not_expired_on_arrival:
  assumes "ttl \<le> 9223372036"
    and "0 \<le> time_Now env" and "time_Now env < 9223372036854775808"
  shows "\<not> expired env (if ttl > 0 then WithTTL env ttl else 0)"
proof (cases "ttl > 0")
  case True
  have s: "0 \<le> Unix (time_Now env)" "Unix (time_Now env) < 9223372037"
    using assms(2,3) by (simp_all add: Unix_def)
  then have "uint64 (Unix (time_Now env)) = nat (Unix (time_Now env))"
    by (simp add: uint64_def)
  then show ?thesis
    using True s WithTTL_in_range [OF True assms] by (simp add: expired_def)
next
  case False
  then show ?thesis by (simp add: expired_def)
qed

section \<open>Properties of upload sessions\<close>

lemma store_get_set: "store_get (ikey x) (store_set x st) = Some x"
  by (induction st) auto

lemma put_chunks_buffer:
  "chunkBuffer h sid = Some buf \<Longrightarrow> list_all (chunk_for env sid) chunks \<Longrightarrow>
   chunkBuffer (put_chunks env h chunks) sid = Some (buf @ concat (map (chunk_payload env) chunks))
   \<and> dbClient (put_chunks env h chunks) = dbClient h"
proof (induction chunks arbitrary: h buf)
  case Nil
  then show ?case by simp
next
  case (Cons ps chunks)
  from Cons.prems(2) obtain p data where p: "json_PutChunkParams env ps = Inr p" "chunk_ID p = sid"
      "base64_Decode env (chunk_Data p) = Inr data"
    by (auto simp: chunk_for_def split: sum.splits)
  let ?h1 = "snd (handlePutChunk env h ps)"
  have step: "chunkBuffer ?h1 sid = Some (buf @ data)" "dbClient ?h1 = dbClient h"
    using p Cons.prems(1) by (simp_all add: handlePutChunk_def)
  have pay: "chunk_payload env ps = data" using p by (simp add: chunk_payload_def)
  have "chunkBuffer (put_chunks env ?h1 chunks) sid
          = Some ((buf @ data) @ concat (map (chunk_payload env) chunks))
      \<and> dbClient (put_chunks env ?h1 chunks) = dbClient ?h1"
    using Cons.prems(2) step(1) by (intro Cons.IH) simp_all
  then show ?case using step(2) pay by simp
qed

lemma commit_unknown:
  "json_PutCommitParams env pc = Inr cp \<Longrightarrow> chunkBuffer h (commit_ID cp) = None \<Longrightarrow>
   handlePutCommit env h pc = (Inl (UnknownUploadSession (commit_ID cp)), h)"
  by (simp add: handlePutCommit_def fun_upd_idem)

text \<open>
  Claim C4 as stated fails. A session opened with a declared length of \<open>-1\<close> panics
  in \<open>put_value\<close>. And a session whose commit carries a time to live of 18000000000
  seconds is committed with success, yet the committed key cannot be read back: the
  duration in nanoseconds wraps to a negative value in 64 bits and the entry is expired
  when it is written.
\<close>

theorem chunked_write_counterexample:
  "handlePutValue env0 h0 ''s'' ''pv-'' = Panic ''makeslice: cap out of range''
   \<and> handlePutValue env0 h0 ''s'' ''pv'' = Return (Inr Null, h0\<lparr>chunkBuffer := [''s'' \<mapsto> []]\<rparr>)
   \<and> fst (handlePutCommit env0
            (put_chunks env0 (h0\<lparr>chunkBuffer := [''s'' \<mapsto> []]\<rparr>) [''c1'', ''c2'']) ''pc+'')
       = Inr Null
   \<and> GetValue (dbClient (snd (handlePutCommit env0
            (put_chunks env0 (h0\<lparr>chunkBuffer := [''s'' \<mapsto> []]\<rparr>) [''c1'', ''c2'']) ''pc+''))) ''k''
       = Inl KeyNotFound"
  by (simp add: env0_def h0_def client_def handlePutValue_def handlePutChunk_def
      handlePutCommit_def SetValue_def SetEntry_def WithTTL_def expired_def int64_def uint64_def
      Unix_def GetValue_def)

text \<open>
  Claim C4, amended. For a session whose \<open>put_value\<close> declares a length the runtime can
  allocate and whose commit carries a time to live of at most 9223372036 seconds (with
  the clock after the epoch and within 64 bits): after \<open>put_value\<close> under the id
  \<open>sid\<close>, any number of \<open>put_chunk\<close> calls for \<open>sid\<close> and a \<open>put_commit\<close>, on an open
  store that accepts the write, the commit succeeds and the committed key holds the
  concatenation of the decoded payloads in the order of the calls, whatever their
  \<open>chunk_index\<close>; the same commit sent again fails with the unknown-session error, and
  so does a commit for an id without a session.
\<close>

theorem chunked_write_roundtrip:
  assumes pv: "json_PutValueParams env pv = Inr v"
    and alloc: "0 \<le> put_ValueLength v" "put_ValueLength v \<le> runtime_maxAlloc env"
    and chunks: "list_all (chunk_for env sid) chunks"
    and pc: "json_PutCommitParams env pc = Inr cp" "commit_ID cp = sid"
    and ttl: "commit_TTL cp \<le> 9223372036"
    and clock: "0 \<le> time_Now env" "time_Now env < 9223372036854775808"
    and "open": "db (dbClient h) = Some st"
    and accepted: "badger_SetEntry env (commit_Key cp) (concat (map (chunk_payload env) chunks)) = None"
    and unused: "chunkBuffer g sid = None"
  shows "(\<exists>h1. handlePutValue env h sid pv = Return (Inr Null, h1)
            \<and> (case handlePutCommit env (put_chunks env h1 chunks) pc of
                 (r, h') \<Rightarrow>
                    r = Inr Null
                  \<and> GetValue (dbClient h') (commit_Key cp)
                      = Inr (concat (map (chunk_payload env) chunks))
                  \<and> fst (handlePutCommit env h' pc) = Inl (UnknownUploadSession sid)))
       \<and> fst (handlePutCommit env g pc) = Inl (UnknownUploadSession sid)"
proof -
  let ?h1 = "h\<lparr>chunkBuffer := (chunkBuffer h)(sid \<mapsto> [])\<rparr>"
  let ?val = "concat (map (chunk_payload env) chunks)"
  let ?e = "\<lparr>ikey = commit_Key cp, ivalue = Some ?val, isize = int (length ?val),
         iexpires = (if commit_TTL cp > 0 then WithTTL env (commit_TTL cp) else 0)\<rparr>"
  have h1: "handlePutValue env h sid pv = Return (Inr Null, ?h1)"
    using pv alloc by (simp add: handlePutValue_def)
  let ?h2 = "put_chunks env ?h1 chunks"
  have buf: "chunkBuffer ?h2 sid = Some ?val" and c2: "dbClient ?h2 = dbClient h"
    using put_chunks_buffer [of ?h1 sid "[]" env chunks] chunks by simp_all
  have live: "SetEntry env ?e st = store_set ?e st"
    using not_expired_on_arrival [OF ttl clock] by (simp add: SetEntry_def)
  obtain r h' where res: "handlePutCommit env ?h2 pc = (r, h')"
    by (cases "handlePutCommit env ?h2 pc")
  have r: "r = Inr Null" and gone: "chunkBuffer h' sid = None"
    and got: "GetValue (dbClient h') (commit_Key cp) = Inr ?val"
    using res pc buf c2 "open" accepted live store_get_set [of ?e st]
    by (auto simp: handlePutCommit_def SetValue_def GetValue_def Let_def)
  have again: "fst (handlePutCommit env h' pc) = Inl (UnknownUploadSession sid)"
    using commit_unknown [OF pc(1), of h'] gone pc(2) by simp
  have fresh: "fst (handlePutCommit env g pc) = Inl (UnknownUploadSession sid)"
    using commit_unknown [OF pc(1), of g] unused pc(2) by simp
  have step: "case handlePutCommit env ?h2 pc of
          (r, h') \<Rightarrow> r = Inr Null \<and> GetValue (dbClient h') (commit_Key cp) = Inr ?val
             \<and> fst (handlePutCommit env h' pc) = Inl (UnknownUploadSession sid)"
    using res r got again by simp
  have "\<exists>h1. handlePutValue env h sid pv = Return (Inr Null, h1)
            \<and> (case handlePutCommit env (put_chunks env h1 chunks) pc of
                 (r, h') \<Rightarrow> r = Inr Null \<and> GetValue (dbClient h') (commit_Key cp) = Inr ?val
                    \<and> fst (handlePutCommit env h' pc) = Inl (UnknownUploadSession sid))"
    using h1 step by (intro exI [of _ ?h1] conjI)
  with fresh show ?thesis by (rule_tac conjI)
qed

theorem chunked_write_roundtrip_witness:
  "(\<exists>h1. handlePutValue env0 h0 ''s'' ''pv'' = Return (Inr Null, h1)
       \<and> (case handlePutCommit env0 (put_chunks env0 h1 [''c1'', ''c2'']) ''pc'' of
            (r, h') \<Rightarrow>
               r = Inr Null
             \<and> GetValue (dbClient h') ''k'' = Inr ''hello''
             \<and> fst (handlePutCommit env0 h' ''pc'') = Inl (UnknownUploadSession ''s'')))
   \<and> fst (handlePutCommit env0 h0 ''pc'') = Inl (UnknownUploadSession ''s'')"
proof -
  have hyps: "json_PutValueParams env0 ''pv'' = Inr \<lparr>put_Key = ''k'', put_ValueLength = 5, put_TTL = 0\<rparr>"
    "put_ValueLength \<lparr>put_Key = ''k'', put_ValueLength = 5, put_TTL = 0\<rparr> \<le> runtime_maxAlloc env0"
    "list_all (chunk_for env0 ''s'') [''c1'', ''c2'']"
    "json_PutCommitParams env0 ''pc'' = Inr \<lparr>commit_ID = ''s'', commit_Key = ''k'', commit_TTL = 0\<rparr>"
    "0 \<le> time_Now env0" "time_Now env0 < 9223372036854775808"
    "db (dbClient h0) = Some []"
    "badger_SetEntry env0 (commit_Key \<lparr>commit_ID = ''s'', commit_Key = ''k'', commit_TTL = 0\<rparr>)
       (concat (map (chunk_payload env0) [''c1'', ''c2''])) = None"
    "chunkBuffer h0 ''s'' = None"
    by (simp_all add: env0_def h0_def client_def chunk_for_def chunk_payload_def)
  have val: "concat (map (chunk_payload env0) [''c1'', ''c2'']) = ''hello''"
    by (simp add: env0_def chunk_payload_def)
  have "(\<exists>h1. handlePutValue env0 h0 ''s'' ''pv'' = Return (Inr Null, h1)
       \<and> (case handlePutCommit env0 (put_chunks env0 h1 [''c1'', ''c2'']) ''pc'' of
            (r, h') \<Rightarrow>
               r = Inr Null
             \<and> GetValue (dbClient h')
                  (commit_Key \<lparr>commit_ID = ''s'', commit_Key = ''k'', commit_TTL = 0\<rparr>)
                 = Inr (concat (map (chunk_payload env0) [''c1'', ''c2'']))
             \<and> fst (handlePutCommit env0 h' ''pc'') = Inl (UnknownUploadSession ''s'')))
   \<and> fst (handlePutCommit env0 h0 ''pc'') = Inl (UnknownUploadSession ''s'')"
    by (rule chunked_write_roundtrip [OF hyps(1) _ hyps(2,3,4) _ _ hyps(5,6,7,8,9)]) simp_all
  then show ?thesis by (simp only: val PutCommitParams.simps)
qed

text \<open>
  Claim C9 as stated fails. \<open>put_value\<close> with a declared length of \<open>-1\<close> under an id
  that has a session panics before the session table is written: the buffer is not
  replaced and no response is sent.
\<close>

theorem put_value_panic_counterexample:
  "chunkBuffer (h0\<lparr>chunkBuffer := [''s'' \<mapsto> ''hel'']\<rparr>) ''s'' = Some ''hel''
   \<and> json_PutValueParams env0 ''pv-'' = Inr \<lparr>put_Key = ''k'', put_ValueLength = - 1, put_TTL = 0\<rparr>
   \<and> handlePutValue env0 (h0\<lparr>chunkBuffer := [''s'' \<mapsto> ''hel'']\<rparr>) ''s'' ''pv-''
       = Panic ''makeslice: cap out of range''"
  by (simp add: env0_def handlePutValue_def)

text \<open>
  Claim C9, amended. \<open>put_value\<close> with well-formed parameters and a declared length the
  runtime can allocate, under an id that already has a session, answers success and
  leaves that id with an empty buffer, whatever the buffer held; other sessions, the
  store and the output are untouched.
\<close>

theorem put_value_resets_session:
  assumes "json_PutValueParams env params = Inr p"
    and "0 \<le> put_ValueLength p" and "put_ValueLength p \<le> runtime_maxAlloc env"
    and "chunkBuffer h rid = Some buf"
  shows "\<exists>h'. handlePutValue env h rid params = Return (Inr Null, h')
           \<and> chunkBuffer h' rid = Some []
           \<and> (\<forall>other. other \<noteq> rid \<longrightarrow> chunkBuffer h' other = chunkBuffer h other)
           \<and> dbClient h' = dbClient h \<and> out h' = out h"
  using assms by (simp add: handlePutValue_def)

theorem put_value_resets_session_witness:
  "json_PutValueParams env0 ''pv'' = Inr \<lparr>put_Key = ''k'', put_ValueLength = 5, put_TTL = 0\<rparr>
   \<and> chunkBuffer (h0\<lparr>chunkBuffer := [''s'' \<mapsto> ''hel'']\<rparr>) ''s'' = Some ''hel''
   \<and> (\<exists>h'. handlePutValue env0 (h0\<lparr>chunkBuffer := [''s'' \<mapsto> ''hel'']\<rparr>) ''s'' ''pv''
              = Return (Inr Null, h')
          \<and> chunkBuffer h' ''s'' = Some [])"
proof -
  have a: "json_PutValueParams env0 ''pv'' = Inr \<lparr>put_Key = ''k'', put_ValueLength = 5, put_TTL = 0\<rparr>"
    by (simp add: env0_def)
  have b: "put_ValueLength \<lparr>put_Key = ''k'', put_ValueLength = 5, put_TTL = 0\<rparr> \<le> runtime_maxAlloc env0"
    by (simp add: env0_def)
  have c: "chunkBuffer (h0\<lparr>chunkBuffer := [''s'' \<mapsto> ''hel'']\<rparr>) ''s'' = Some ''hel''"
    by simp
  from put_value_resets_session [OF a _ b c] show ?thesis using a c by auto
qed

section \<open>Properties of the dispatcher\<close>

lemma dispatch_None_iff:
  "dispatch env h req = None \<longleftrightarrow> req_Type req \<notin> set request_types"
  by (simp add: dispatch_def request_types_def)

text \<open>
  Claim C5 as stated fails: a request of unknown type and a request whose handler fails
  (a commit for an unknown session) are both answered with code 1000.
\<close>

theorem error_codes_counterexample:
  "handleLine env0 h0 ''L1''
     = Return (h0\<lparr>out := [\<lparr>resp_ID = ''1'', resp_Type = ''error'', resp_Result = Null,
         resp_Error = Some \<lparr>Code = 1000, Message = ''Unknown request type''\<rparr>\<rparr>]\<rparr>)
   \<and> handleLine env0 h0 ''L2''
     = Return (h0\<lparr>out := [\<lparr>resp_ID = ''2'', resp_Type = ''error'', resp_Result = Null,
         resp_Error = Some \<lparr>Code = 1000, Message = ''unknown upload session: s''\<rparr>\<rparr>]\<rparr>)"
  by (simp add: handleLine_def dispatch_def reply_def sendError_def writeJSON_def
      handlePutCommit_def env0_def h0_def)

text \<open>
  Claim C5, amended. A line whose envelope does not decode is answered with an error of
  code 1003; a request of unknown type and a request whose handler returns an error are
  both answered with an error of code 1000, told apart only by the message.
\<close>

theorem error_codes:
  assumes "json_Request env line = (req, derr)"
  shows "(derr \<noteq> None \<longrightarrow>
            (\<exists>g. handleLine env h line = Return g
               \<and> out g = out h @ [\<lparr>resp_ID = req_ID req, resp_Type = ''error'', resp_Result = Null,
                   resp_Error = Some \<lparr>Code = 1003, Message = ''Invalid request format''\<rparr>\<rparr>]))
       \<and> (derr = None \<and> req_Type req \<notin> set request_types \<longrightarrow>
            (\<exists>g. handleLine env h line = Return g
               \<and> out g = out h @ [\<lparr>resp_ID = req_ID req, resp_Type = ''error'', resp_Result = Null,
                   resp_Error = Some \<lparr>Code = 1000, Message = ''Unknown request type''\<rparr>\<rparr>]))
       \<and> (derr = None \<and> dispatch env h req = Some (Return (Inl err, h')) \<longrightarrow>
            (\<exists>g. handleLine env h line = Return g
               \<and> out g = out h' @ [\<lparr>resp_ID = req_ID req, resp_Type = ''error'', resp_Result = Null,
                   resp_Error = Some \<lparr>Code = 1000, Message = Error_msg err\<rparr>\<rparr>]))"
proof (intro conjI impI)
  assume "derr \<noteq> None"
  then obtain e where "derr = Some e" by auto
  with assms show "\<exists>g. handleLine env h line = Return g
      \<and> out g = out h @ [\<lparr>resp_ID = req_ID req, resp_Type = ''error'', resp_Result = Null,
           resp_Error = Some \<lparr>Code = 1003, Message = ''Invalid request format''\<rparr>\<rparr>]"
    by (simp add: handleLine_def sendError_def writeJSON_def)
next
  assume a: "derr = None \<and> req_Type req \<notin> set request_types"
  then have "dispatch env h req = None" by (simp add: dispatch_None_iff)
  with assms a show "\<exists>g. handleLine env h line = Return g
      \<and> out g = out h @ [\<lparr>resp_ID = req_ID req, resp_Type = ''error'', resp_Result = Null,
           resp_Error = Some \<lparr>Code = 1000, Message = ''Unknown request type''\<rparr>\<rparr>]"
    by (simp add: handleLine_def sendError_def writeJSON_def)
next
  assume "derr = None \<and> dispatch env h req = Some (Return (Inl err, h'))"
  with assms show "\<exists>g. handleLine env h line = Return g
      \<and> out g = out h' @ [\<lparr>resp_ID = req_ID req, resp_Type = ''error'', resp_Result = Null,
           resp_Error = Some \<lparr>Code = 1000, Message = Error_msg err\<rparr>\<rparr>]"
    by (simp add: handleLine_def reply_def sendError_def writeJSON_def)
qed

theorem error_codes_witness:
  "(\<exists>g. handleLine env0 h0 ''{'' = Return g
      \<and> out g = [\<lparr>resp_ID = [], resp_Type = ''error'', resp_Result = Null,
           resp_Error = Some \<lparr>Code = 1003, Message = ''Invalid request format''\<rparr>\<rparr>])
   \<and> (\<exists>g. handleLine env0 h0 ''L1'' = Return g
      \<and> out g = [\<lparr>resp_ID = ''1'', resp_Type = ''error'', resp_Result = Null,
           resp_Error = Some \<lparr>Code = 1000, Message = ''Unknown request type''\<rparr>\<rparr>])
   \<and> dispatch env0 h0 \<lparr>req_ID = ''2'', req_Type = ''put_commit'', req_Params = ''pc''\<rparr>
        = Some (Return (Inl (UnknownUploadSession ''s''), h0))
   \<and> (\<exists>g. handleLine env0 h0 ''L2'' = Return g
      \<and> out g = [\<lparr>resp_ID = ''2'', resp_Type = ''error'', resp_Result = Null,
           resp_Error = Some \<lparr>Code = 1000, Message = ''unknown upload session: s''\<rparr>\<rparr>])"
  using error_codes [of env0 "''{''" "\<lparr>req_ID = [], req_Type = [], req_Params = []\<rparr>"
        "Some ''unexpected end of JSON input''" h0]
    error_codes [of env0 "''L1''" "\<lparr>req_ID = ''1'', req_Type = ''rename_key'', req_Params = []\<rparr>"
        None h0]
    error_codes [of env0 "''L2''" "\<lparr>req_ID = ''2'', req_Type = ''put_commit'', req_Params = ''pc''\<rparr>"
        None h0 "UnknownUploadSession ''s''" h0]
  by (simp add: env0_def h0_def request_types_def dispatch_def handlePutCommit_def fun_upd_idem)

end
